theory Spec2Isabelle
  imports Complex_Main "HOL-Library.Sublist"
begin

section \<open>Incremental feature search (mvpa/incrsearch.py)\<close>

text \<open>
  The class \<open>IncrementalFeatureSearch\<close> runs a greedy forward selection of features
  (or of regions of interest) inside a meta cross-validation.  The dataset, the
  cross-validation and the classifier are collaborators that live outside the module:
  they are parameters of the model (the record \<open>env\<close>), and each of them may raise.

  Python lists and numpy arrays are objects that are passed by reference, so they live in
  an explicit store; a reference is an index into the store.  Floats are modelled as
  reals (no rounding, no NaN); status output (\<open>verbose\<close>) is left out.
\<close>

subsection \<open>Arrays and the object store\<close>

type_synonym addr = nat

datatype ndarray = IntArray "nat list" "int list" | BoolArray "nat list" "bool list"

fun shape :: "ndarray \<Rightarrow> nat list" where
  "shape (IntArray sh xs) = sh"
| "shape (BoolArray sh bs) = sh"

text \<open>The elements in scan (row-major) order; a boolean counts as 0 or 1, as in numpy.\<close>

fun elems :: "ndarray \<Rightarrow> int list" where
  "elems (IntArray sh xs) = xs"
| "elems (BoolArray sh bs) = map (\<lambda>b. if b then 1 else 0) bs"

text \<open>A numpy array holds as many elements as its shape says.\<close>

definition wellformed :: "ndarray \<Rightarrow> bool" where
  "wellformed a \<longleftrightarrow> length (elems a) = prod_list (shape a)"

record heap =
  lists :: "int list list"
  arrays :: "ndarray list"

definition alloc_list :: "heap \<Rightarrow> int list \<Rightarrow> heap \<times> addr" where
  "alloc_list h xs = (h\<lparr>lists := lists h @ [xs]\<rparr>, length (lists h))"

definition alloc_array :: "heap \<Rightarrow> ndarray \<Rightarrow> heap \<times> addr" where
  "alloc_array h a = (h\<lparr>arrays := arrays h @ [a]\<rparr>, length (arrays h))"

text \<open>\<open>heap_le h h'\<close>: every object of \<open>h\<close> is in \<open>h'\<close>, at its address and unchanged.\<close>

definition heap_le :: "heap \<Rightarrow> heap \<Rightarrow> bool" where
  "heap_le h h' \<longleftrightarrow> prefix (lists h) (lists h') \<and> prefix (arrays h) (arrays h')"

subsection \<open>Numeric primitives\<close>

definition np_mean :: "real list \<Rightarrow> real" where
  "np_mean xs = sum_list xs / real (length xs)"

text \<open>\<open>argmax\<close>: the index of the first occurrence of the maximum.  It is only
  evaluated on one rating per candidate of a non-empty pool.\<close>

fun argmax :: "real list \<Rightarrow> nat" where
  "argmax [] = 0"
| "argmax [x] = 0"
| "argmax (x # y # ys) = (let i = argmax (y # ys) in if x < (y # ys) ! i then Suc i else 0)"

definition np_max :: "real list \<Rightarrow> real" where
  "np_max xs = Max (set xs)"

text \<open>\<open>np.unique\<close>: the sorted distinct elements.\<close>

definition np_unique :: "int list \<Rightarrow> int list" where
  "np_unique xs = sort (remdups xs)"

definition np_zeros_bool :: "nat list \<Rightarrow> ndarray" where
  "np_zeros_bool sh = BoolArray sh (replicate (prod_list sh) False)"

text \<open>The coordinate of the element at position \<open>k\<close> of the scan order.\<close>

fun unravel :: "nat list \<Rightarrow> nat \<Rightarrow> nat list" where
  "unravel [] k = []"
| "unravel (d # ds) k = (k div prod_list ds) # unravel ds (k mod prod_list ds)"

text \<open>\<open>np.transpose(a.nonzero())\<close>: the coordinates of the nonzero elements, in scan order.\<close>

definition nonzero_coords :: "ndarray \<Rightarrow> nat list list" where
  "nonzero_coords a =
     map (unravel (shape a)) (filter (\<lambda>k. elems a ! k \<noteq> 0) [0..<length (elems a)])"

subsection \<open>Failures, collaborators and the search object\<close>

datatype 'e failure = Collaborator 'e | ValueError | IndexError

text \<open>
  The collaborators: the attributes and methods of the pattern object (\<open>origshape\<close>,
  \<open>originlabels\<close>, \<open>reg\<close>, \<open>getFeatureId\<close>, \<open>selectFeatures\<close>, \<open>features2origmask\<close>)
  and the functions of the module \<open>crossval\<close>.  \<open>pat_selectFeatures\<close> receives a reference
  (a list of feature ids in feature mode, a boolean mask in ROI mode) and reads it in the
  store.  \<open>cv_run\<close> stands for the construction of a \<open>CrossValidation\<close> and its \<open>run\<close>; it
  yields the attribute \<open>perf\<close>.  \<open>getClassification\<close> yields the predictions.
\<close>

record ('p, 'e, 'c, 'k) env =
  origshape :: "'p \<Rightarrow> nat list"
  originlabels :: "'p \<Rightarrow> int list"
  reg :: "'p \<Rightarrow> int list"
  getFeatureId :: "'p \<Rightarrow> nat list \<Rightarrow> 'e + int"
  pat_selectFeatures :: "'p \<Rightarrow> heap \<Rightarrow> addr \<Rightarrow> 'e + 'p"
  features2origmask :: "'p \<Rightarrow> int list \<Rightarrow> 'e + ndarray"
  getUniqueLengthNCombinations :: "int list \<Rightarrow> nat \<Rightarrow> 'e + int list list"
  splitTrainTestData :: "'p \<Rightarrow> int list \<Rightarrow> 'e + 'p \<times> 'p"
  cv_run :: "'p \<Rightarrow> 'k \<Rightarrow> 'c \<Rightarrow> nat \<Rightarrow> 'k \<Rightarrow> 'e + real list"
  getClassification :: "'c \<Rightarrow> 'p \<Rightarrow> 'p \<Rightarrow> 'k \<Rightarrow> 'e + int list"

record ('p, 'k) searcher =
  pattern :: 'p
  maskref :: addr
  cvtype :: nat
  metacvtype :: nat
  break_crit :: real
  cvargs :: 'k
  perfs :: "real list"
  selection_masks :: "addr list"
  metacv_origins :: "int list list"

definition clearResults :: "('p, 'k) searcher \<Rightarrow> ('p, 'k) searcher" where
  "clearResults self = self\<lparr>perfs := [], selection_masks := [], metacv_origins := []\<rparr>"

text \<open>The constructor: the object is only returned when the shapes agree.\<close>

definition init ::
  "('p, 'e, 'c, 'k) env \<Rightarrow> heap \<Rightarrow> 'p \<Rightarrow> addr \<Rightarrow> nat \<Rightarrow> nat \<Rightarrow> real \<Rightarrow> 'k
     \<Rightarrow> 'e failure + ('p, 'k) searcher" where
  "init E h pat m cvt metacvt crit kwargs =
     (if \<not> shape (arrays h ! m) = origshape E pat then Inl ValueError
      else Inr (clearResults \<lparr>pattern = pat, maskref = m, cvtype = cvt, metacvtype = metacvt,
                  break_crit = crit, cvargs = kwargs, perfs = [], selection_masks = [],
                  metacv_origins = []\<rparr>))"

definition doCrossValidation ::
  "('p, 'e, 'c, 'k) env \<Rightarrow> ('p, 'k) searcher \<Rightarrow> 'p \<Rightarrow> 'c \<Rightarrow> 'k \<Rightarrow> 'e + real list" where
  "doCrossValidation E self pat clf clfargs = cv_run E pat (cvargs self) clf (cvtype self) clfargs"

subsection \<open>The two selectors\<close>

type_synonym 'e selector = "heap \<Rightarrow> addr \<Rightarrow> int \<Rightarrow> heap \<times> ('e failure + addr)"

text \<open>\<open>selected + [candidate]\<close>: a new list.\<close>

definition selectByFeatureId :: "'e selector" where
  "selectByFeatureId h selected candidate =
     (let (h', r) = alloc_list h (lists h ! selected @ [candidate]) in (h', Inr r))"

text \<open>\<open>np.logical_or(selected, self.mask == candidate)\<close>: a new boolean array.  Both
  operands have the shape of the mask when the call comes from \<open>selectROIs\<close>; numpy's
  broadcasting of unequal shapes is not modelled, such a call is a \<open>ValueError\<close>.\<close>

definition selectByMaskValue :: "('p, 'k) searcher \<Rightarrow> 'e selector" where
  "selectByMaskValue self h selected candidate =
     (let m = arrays h ! maskref self; s = arrays h ! selected in
      if shape s \<noteq> shape m then (h, Inl ValueError)
      else let (h', r) = alloc_array h (BoolArray (shape m)
                 (map2 (\<lambda>x v. x \<noteq> 0 \<or> v = candidate) (elems s) (elems m)))
           in (h', Inr r))"

text \<open>A selector that only adds objects to the store.\<close>

definition allocating :: "'e selector \<Rightarrow> bool" where
  "allocating fs \<longleftrightarrow> (\<forall>h s c h' r. fs h s c = (h', r) \<longrightarrow> heap_le h h')"

text \<open>
  A selector is safe for a property \<open>ok\<close> of the selected set when it only allocates,
  \<open>ok\<close> survives allocation, and on an \<open>ok\<close> selected set the selector does not fail and
  returns an \<open>ok\<close> one.  For \<open>selectByMaskValue\<close> the property is \<open>mask_ok\<close>: the
  mask and the selected set are objects of the store, of the same shape.
\<close>

definition selector_safe :: "'e selector \<Rightarrow> (heap \<Rightarrow> addr \<Rightarrow> bool) \<Rightarrow> bool" where
  "selector_safe fs ok \<longleftrightarrow>
     allocating fs
     \<and> (\<forall>h h' s. ok h s \<longrightarrow> heap_le h h' \<longrightarrow> ok h' s)
     \<and> (\<forall>h s c h' r. ok h s \<longrightarrow> fs h s c = (h', r) \<longrightarrow> (\<exists>s'. r = Inr s' \<and> ok h' s'))"

definition mask_ok :: "('p, 'k) searcher \<Rightarrow> heap \<Rightarrow> addr \<Rightarrow> bool" where
  "mask_ok self h s \<longleftrightarrow> maskref self < length (arrays h) \<and> s < length (arrays h)
     \<and> shape (arrays h ! s) = shape (arrays h ! maskref self)"

subsection \<open>The inner greedy loop\<close>

text \<open>The \<open>for\<close> loop over the candidates: one rating per candidate, in pool order.\<close>

fun rate_candidates ::
  "('p, 'e, 'c, 'k) env \<Rightarrow> ('p, 'k) searcher \<Rightarrow> 'p \<Rightarrow> 'c \<Rightarrow> 'k \<Rightarrow> 'e selector \<Rightarrow> addr
     \<Rightarrow> int list \<Rightarrow> heap \<Rightarrow> heap \<times> ('e failure + real list)" where
  "rate_candidates E self pat clf clfargs featureselector selected [] h = (h, Inr [])"
| "rate_candidates E self pat clf clfargs featureselector selected (candidate # rest) h =
     (case featureselector h selected candidate of
        (h1, Inl e) \<Rightarrow> (h1, Inl e)
      | (h1, Inr features) \<Rightarrow>
          (case pat_selectFeatures E pat h1 features of
             Inl e \<Rightarrow> (h1, Inl (Collaborator e))
           | Inr temp_pat \<Rightarrow>
               (case doCrossValidation E self temp_pat clf clfargs of
                  Inl e \<Rightarrow> (h1, Inl (Collaborator e))
                | Inr perf \<Rightarrow>
                    (case rate_candidates E self pat clf clfargs featureselector selected rest h1 of
                       (h2, Inl e) \<Rightarrow> (h2, Inl e)
                     | (h2, Inr candidate_rating) \<Rightarrow>
                         (h2, Inr (np_mean perf # candidate_rating))))))"

text \<open>The \<open>while\<close> loop.  \<open>feat_cand\<close> is the local copy of the pool: no other reference to
  it exists, so it is carried as a value and \<open>remove\<close> acts on that value.\<close>

function sel_loop ::
  "('p, 'e, 'c, 'k) env \<Rightarrow> ('p, 'k) searcher \<Rightarrow> 'p \<Rightarrow> 'c \<Rightarrow> 'k \<Rightarrow> 'e selector \<Rightarrow> heap
     \<Rightarrow> int list \<Rightarrow> addr \<Rightarrow> real \<Rightarrow> int list \<Rightarrow> heap \<times> ('e failure + addr \<times> int list)" where
  "sel_loop E self pat clf clfargs featureselector h feat_cand selected best_performance_ever
       best_ids =
     (if feat_cand = [] then (h, Inr (selected, best_ids))
      else
        (case rate_candidates E self pat clf clfargs featureselector selected feat_cand h of
           (h1, Inl e) \<Rightarrow> (h1, Inl e)
         | (h1, Inr candidate_rating) \<Rightarrow>
             (let i = argmax candidate_rating in
              if \<not> i < length feat_cand then (h1, Inl IndexError)
              else
                (let best_id = feat_cand ! i in
                 if np_max candidate_rating - best_performance_ever < break_crit self
                 then (h1, Inr (selected, best_ids))
                 else
                   (case featureselector h1 selected best_id of
                      (h2, Inl e) \<Rightarrow> (h2, Inl e)
                    | (h2, Inr selected') \<Rightarrow>
                        sel_loop E self pat clf clfargs featureselector h2
                          (remove1 best_id feat_cand) selected' (np_max candidate_rating)
                          (best_ids @ [best_id]))))))"
  by pat_completeness auto
termination
  by (relation "measure (\<lambda>(E, self, pat, clf, clfargs, fs, h, feat_cand, r). length feat_cand)")
     (auto simp: length_remove1 intro: diff_less)

declare sel_loop.simps [simp del]

definition doSelection ::
  "('p, 'e, 'c, 'k) env \<Rightarrow> ('p, 'k) searcher \<Rightarrow> heap \<Rightarrow> 'p \<Rightarrow> 'c \<Rightarrow> 'k \<Rightarrow> 'e selector
     \<Rightarrow> addr \<Rightarrow> addr \<Rightarrow> heap \<times> ('e failure + addr \<times> int list)" where
  "doSelection E self h pat clf clfargs featureselector selected candidates =
     (let feat_cand = lists h ! candidates
      in sel_loop E self pat clf clfargs featureselector h feat_cand selected 0 [])"

subsection \<open>The meta cross-validation\<close>

text \<open>\<open>(predictions == meta_test.reg).mean()\<close>: the fraction of positions where the two
  agree; the collaborator predicts one label per sample of the test set.\<close>

definition fold_accuracy :: "int list \<Rightarrow> int list \<Rightarrow> real" where
  "fold_accuracy predictions labels =
     np_mean (map2 (\<lambda>p r. if p = r then 1 else 0) predictions labels)"

text \<open>The \<open>for\<close> loop over the meta folds.  A failure leaves the object as it is at that
  moment.\<close>

fun cv_folds ::
  "('p, 'e, 'c, 'k) env \<Rightarrow> ('p, 'k) searcher \<Rightarrow> heap \<Rightarrow> 'c \<Rightarrow> 'k \<Rightarrow> 'e selector \<Rightarrow> addr
     \<Rightarrow> addr \<Rightarrow> int list list \<Rightarrow> addr list \<Rightarrow> int list list
     \<Rightarrow> ('p, 'k) searcher \<times> heap \<times> ('e failure + addr list \<times> int list list)" where
  "cv_folds E self h clf clfargs featureselector selected candidates [] cv_features cv_rois =
     (self, h, Inr (cv_features, cv_rois))"
| "cv_folds E self h clf clfargs featureselector selected candidates (exclude # rest)
       cv_features cv_rois =
     (case splitTrainTestData E (pattern self) exclude of
        Inl e \<Rightarrow> (self, h, Inl (Collaborator e))
      | Inr (meta_train, meta_test) \<Rightarrow>
          (case doSelection E self h meta_train clf clfargs featureselector selected candidates of
             (h1, Inl e) \<Rightarrow> (self, h1, Inl e)
           | (h1, Inr (selected_features, selected_rois)) \<Rightarrow>
               (case pat_selectFeatures E (pattern self) h1 selected_features of
                  Inl e \<Rightarrow> (self, h1, Inl (Collaborator e))
                | Inr bestfeature_pat \<Rightarrow>
                    (case pat_selectFeatures E meta_test h1 selected_features of
                       Inl e \<Rightarrow> (self, h1, Inl (Collaborator e))
                     | Inr test_pat \<Rightarrow>
                         (case getClassification E clf bestfeature_pat test_pat clfargs of
                            Inl e \<Rightarrow> (self, h1, Inl (Collaborator e))
                          | Inr predictions \<Rightarrow>
                              cv_folds E
                                (self\<lparr>perfs := perfs self
                                    @ [fold_accuracy predictions (reg E meta_test)]\<rparr>)
                                h1 clf clfargs featureselector selected candidates rest
                                (cv_features @ [selected_features])
                                (cv_rois @ [selected_rois]))))))"

definition doCVSelection ::
  "('p, 'e, 'c, 'k) env \<Rightarrow> ('p, 'k) searcher \<Rightarrow> heap \<Rightarrow> 'c \<Rightarrow> 'k \<Rightarrow> 'e selector \<Rightarrow> addr
     \<Rightarrow> addr \<Rightarrow> ('p, 'k) searcher \<times> heap \<times> ('e failure + addr list \<times> int list list)" where
  "doCVSelection E self h clf clfargs featureselector selected candidates =
     (case getUniqueLengthNCombinations E (originlabels E (pattern self)) (metacvtype self) of
        Inl e \<Rightarrow> (self, h, Inl (Collaborator e))
      | Inr origins \<Rightarrow>
          cv_folds E (self\<lparr>metacv_origins := origins\<rparr>) h clf clfargs featureselector
            selected candidates origins [] [])"

text \<open>
  The inner searches of the meta folds, in enumeration order, as the loop above starts
  them: for every fold the store at its start, the meta training set, and the selected
  set and the chosen ids that \<open>doSelection\<close> returns.
\<close>

fun fold_runs ::
  "('p, 'e, 'c, 'k) env \<Rightarrow> ('p, 'k) searcher \<Rightarrow> heap \<Rightarrow> 'c \<Rightarrow> 'k \<Rightarrow> 'e selector \<Rightarrow> addr
     \<Rightarrow> addr \<Rightarrow> int list list \<Rightarrow> (heap \<times> 'p \<times> addr \<times> int list) list" where
  "fold_runs E self h clf clfargs featureselector selected candidates [] = []"
| "fold_runs E self h clf clfargs featureselector selected candidates (exclude # rest) =
     (case splitTrainTestData E (pattern self) exclude of
        Inl e \<Rightarrow> []
      | Inr (meta_train, meta_test) \<Rightarrow>
          (case doSelection E self h meta_train clf clfargs featureselector selected candidates of
             (h1, Inl e) \<Rightarrow> []
           | (h1, Inr (selected_features, selected_rois)) \<Rightarrow>
               (h, meta_train, selected_features, selected_rois)
                 # fold_runs E self h1 clf clfargs featureselector selected candidates rest))"

text \<open>The failures that the collaborators can raise.\<close>

definition raised :: "('p, 'e, 'c, 'k) env \<Rightarrow> 'e set" where
  "raised E =
     {e. (\<exists>p c. getFeatureId E p c = Inl e)
       \<or> (\<exists>p h a. pat_selectFeatures E p h a = Inl e)
       \<or> (\<exists>p ids. features2origmask E p ids = Inl e)
       \<or> (\<exists>labels n. getUniqueLengthNCombinations E labels n = Inl e)
       \<or> (\<exists>p exclude. splitTrainTestData E p exclude = Inl e)
       \<or> (\<exists>p cvkw clf cvt kw. cv_run E p cvkw clf cvt kw = Inl e)
       \<or> (\<exists>clf train test kw. getClassification E clf train test kw = Inl e)}"

subsection \<open>The two entry points\<close>

text \<open>\<open>np.unique(self.mask).tolist()\<close>\<close>

definition roi_candidates :: "('p, 'k) searcher \<Rightarrow> heap \<Rightarrow> int list" where
  "roi_candidates self h = np_unique (elems (arrays h ! maskref self))"

definition selectROIs ::
  "('p, 'e, 'c, 'k) env \<Rightarrow> ('p, 'k) searcher \<Rightarrow> heap \<Rightarrow> 'c \<Rightarrow> 'k
     \<Rightarrow> ('p, 'k) searcher \<times> heap \<times> ('e failure + int list list)" where
  "selectROIs E self0 h0 classifier kwargs =
     (let self = clearResults self0;
          (h1, mask_values) = alloc_list h0 (roi_candidates self h0);
          (h2, selected_features) =
             alloc_array h1 (np_zeros_bool (shape (arrays h1 ! maskref self)))
      in case doCVSelection E self h2 classifier kwargs (selectByMaskValue self)
                selected_features mask_values of
           (self', h3, Inl e) \<Rightarrow> (self', h3, Inl e)
         | (self', h3, Inr (feature_mask, selected_rois)) \<Rightarrow>
             (self'\<lparr>selection_masks := feature_mask\<rparr>, h3, Inr selected_rois))"

text \<open>\<open>[self.pattern.getFeatureId(coord) for coord in ...]\<close>\<close>

fun featureIds :: "('p, 'e, 'c, 'k) env \<Rightarrow> 'p \<Rightarrow> nat list list \<Rightarrow> 'e failure + int list" where
  "featureIds E pat [] = Inr []"
| "featureIds E pat (coord # rest) =
     (case getFeatureId E pat coord of
        Inl e \<Rightarrow> Inl (Collaborator e)
      | Inr f \<Rightarrow> (case featureIds E pat rest of Inl e \<Rightarrow> Inl e | Inr fs \<Rightarrow> Inr (f # fs)))"

definition feature_candidates ::
  "('p, 'e, 'c, 'k) env \<Rightarrow> ('p, 'k) searcher \<Rightarrow> heap \<Rightarrow> 'e failure + int list" where
  "feature_candidates E self h =
     featureIds E (pattern self) (nonzero_coords (arrays h ! maskref self))"

text \<open>\<open>[self.pattern.features2origmask(f) for f in selected_features]\<close>\<close>

fun origmasks ::
  "('p, 'e, 'c, 'k) env \<Rightarrow> 'p \<Rightarrow> heap \<Rightarrow> addr list \<Rightarrow> heap \<times> ('e failure + addr list)" where
  "origmasks E pat h [] = (h, Inr [])"
| "origmasks E pat h (f # rest) =
     (case features2origmask E pat (lists h ! f) of
        Inl e \<Rightarrow> (h, Inl (Collaborator e))
      | Inr a \<Rightarrow>
          (let (h1, r) = alloc_array h a in
           case origmasks E pat h1 rest of
             (h2, Inl e) \<Rightarrow> (h2, Inl e)
           | (h2, Inr rs) \<Rightarrow> (h2, Inr (r # rs))))"

definition selectFeatures ::
  "('p, 'e, 'c, 'k) env \<Rightarrow> ('p, 'k) searcher \<Rightarrow> heap \<Rightarrow> 'c \<Rightarrow> 'k
     \<Rightarrow> ('p, 'k) searcher \<times> heap \<times> ('e failure + addr list)" where
  "selectFeatures E self0 h0 classifier kwargs =
     (let self = clearResults self0;
          (h1, selected_features) = alloc_list h0 []
      in case feature_candidates E self h1 of
           Inl e \<Rightarrow> (self, h1, Inl e)
         | Inr ids \<Rightarrow>
             (let (h2, cand_features) = alloc_list h1 ids
              in case doCVSelection E self h2 classifier kwargs selectByFeatureId
                        selected_features cand_features of
                   (self', h3, Inl e) \<Rightarrow> (self', h3, Inl e)
                 | (self', h3, Inr (selected_features', dummy)) \<Rightarrow>
                     (case origmasks E (pattern self') h3 selected_features' of
                        (h4, Inl e) \<Rightarrow> (self', h4, Inl e)
                      | (h4, Inr masks) \<Rightarrow>
                          (self'\<lparr>selection_masks := masks\<rparr>, h4, Inr selected_features'))))"

text \<open>\<open>getMeanSelectionMask\<close>: \<open>None\<close> without a selection mask, else the mean over the
  masks, element by element.\<close>

definition getMeanSelectionMask :: "('p, 'k) searcher \<Rightarrow> heap \<Rightarrow> real list option" where
  "getMeanSelectionMask self h =
     (if length (selection_masks self) < 1 then None
      else
        (let rows = map (\<lambda>r. elems (arrays h ! r)) (selection_masks self)
         in Some (map (\<lambda>j. np_mean (map (\<lambda>row. real_of_int (row ! j)) rows))
                    [0..<length (hd rows)])))"

subsection \<open>A small instance of the collaborators\<close>

text \<open>
  A concrete dataset, to run the model on: a pattern is a list of samples (feature values,
  label, origin).  The rating of a feature set is a quarter of its size; the classifier
  predicts the label of the first training sample with the same feature values (\<open>-1\<close>
  without one) and rejects a test sample with a negative feature value.  \<open>view\<close> reads the
  feature indices out of a reference: a list of ids, or the true positions of a mask.
\<close>

type_synonym toy_pattern = "(int list \<times> int \<times> int) list"

definition ids_view :: "heap \<Rightarrow> addr \<Rightarrow> nat list" where
  "ids_view h a = map nat (lists h ! a)"

definition mask_view :: "heap \<Rightarrow> addr \<Rightarrow> nat list" where
  "mask_view h a = filter (\<lambda>i. elems (arrays h ! a) ! i \<noteq> 0) [0..<length (elems (arrays h ! a))]"

definition toy_predict :: "toy_pattern \<Rightarrow> int list \<Rightarrow> int" where
  "toy_predict train f =
     (case filter (\<lambda>(f', l', g'). f' = f) train of [] \<Rightarrow> - 1 | (f', l', g') # _ \<Rightarrow> l')"

definition toy :: "(heap \<Rightarrow> addr \<Rightarrow> nat list) \<Rightarrow> (toy_pattern, string, unit, unit) env" where
  "toy view =
     \<lparr>origshape = (\<lambda>p. [length (fst (hd p))]),
      originlabels = map (\<lambda>(f, l, g). g),
      reg = map (\<lambda>(f, l, g). l),
      getFeatureId = (\<lambda>p coord. if length coord = 1 then Inr (int (hd coord)) else Inl ''coordinate''),
      pat_selectFeatures = (\<lambda>p h a. Inr (map (\<lambda>(f, l, g). (map (\<lambda>i. f ! i) (view h a), l, g)) p)),
      features2origmask = (\<lambda>p ids. Inr (BoolArray [length (fst (hd p))]
                              (map (\<lambda>i. int i \<in> set ids) [0..<length (fst (hd p))]))),
      getUniqueLengthNCombinations = (\<lambda>labels n. Inr (map (\<lambda>g. [g]) (remdups labels))),
      splitTrainTestData = (\<lambda>p ex. Inr (filter (\<lambda>(f, l, g). g \<notin> set ex) p,
                                         filter (\<lambda>(f, l, g). g \<in> set ex) p)),
      cv_run = (\<lambda>p cvkw clf cvt kw. Inr [real (length (fst (hd p))) / 4]),
      getClassification = (\<lambda>clf train test kw.
         if \<exists>(f, l, g) \<in> set test. \<exists>x \<in> set f. x < 0 then Inl ''negative feature''
         else Inr (map (\<lambda>(f, l, g). toy_predict train f) test))\<rparr>"

text \<open>The same collaborators with a rating that tells the features apart: the
  cross-validation rates a sample by the sum of its feature values, in percent.\<close>

definition toy_rated :: "(heap \<Rightarrow> addr \<Rightarrow> nat list) \<Rightarrow> (toy_pattern, string, unit, unit) env" where
  "toy_rated view =
     (toy view)\<lparr>cv_run := (\<lambda>p cvkw clf cvt kw.
        Inr (map (\<lambda>(f, l, g). real_of_int (sum_list f) / 100) p))\<rparr>"

definition toy_searcher :: "toy_pattern \<Rightarrow> addr \<Rightarrow> (toy_pattern, unit) searcher" where
  "toy_searcher p m =
     \<lparr>pattern = p, maskref = m, cvtype = 1, metacvtype = 1, break_crit = 1 / 1000, cvargs = (),
      perfs = [], selection_masks = [], metacv_origins = []\<rparr>"

section \<open>Auxiliary facts\<close>

subsection \<open>Ratings, the store and the inner loop\<close>

lemma rate_candidates_length:
  "rate_candidates E self pat clf kw fs sel cands h = (h', Inr rs) \<Longrightarrow> length rs = length cands"
  by (induction cands arbitrary: h h' rs) (auto split: prod.splits sum.splits)

lemma argmax_less: "xs \<noteq> [] \<Longrightarrow> argmax xs < length xs"
  by (induction xs rule: argmax.induct) (auto simp: Let_def)

lemma argmax_ge: "j < length xs \<Longrightarrow> xs ! j \<le> xs ! argmax xs"
proof (induction xs arbitrary: j rule: argmax.induct)
  case (3 x y ys)
  show ?case
  proof (cases j)
    case 0
    then show ?thesis by (auto simp: Let_def)
  next
    case (Suc k)
    with 3 have "(y # ys) ! k \<le> (y # ys) ! argmax (y # ys)" by simp
    with Suc show ?thesis by (auto simp: Let_def)
  qed
qed auto

lemma argmax_first: "j < argmax xs \<Longrightarrow> xs ! j < xs ! argmax xs"
proof (induction xs arbitrary: j rule: argmax.induct)
  case (3 x y ys)
  show ?case
  proof (cases "x < (y # ys) ! argmax (y # ys)")
    case True
    then have a: "argmax (x # y # ys) = Suc (argmax (y # ys))" by (simp add: Let_def)
    show ?thesis
    proof (cases j)
      case 0
      with True a show ?thesis by simp
    next
      case (Suc k)
      with 3 a True have "(y # ys) ! k < (y # ys) ! argmax (y # ys)" by simp
      with Suc a show ?thesis by simp
    qed
  next
    case False
    with 3 show ?thesis by (simp add: Let_def)
  qed
qed auto

lemma argmax_max: "xs \<noteq> [] \<Longrightarrow> xs ! argmax xs = np_max xs"
proof -
  assume ne: "xs \<noteq> []"
  have "Max (set xs) = xs ! argmax xs"
  proof (rule Max_eqI)
    show "finite (set xs)" by simp
    show "\<And>y. y \<in> set xs \<Longrightarrow> y \<le> xs ! argmax xs"
      by (auto simp: in_set_conv_nth argmax_ge)
    show "xs ! argmax xs \<in> set xs" using ne by (simp add: argmax_less)
  qed
  then show ?thesis by (simp add: np_max_def)
qed

lemma heap_le_refl: "heap_le h h"
  by (simp add: heap_le_def)

lemma heap_le_trans: "heap_le a b \<Longrightarrow> heap_le b c \<Longrightarrow> heap_le a c"
  by (auto simp: heap_le_def)

lemma heap_le_alloc_list: "alloc_list h xs = (h', r) \<Longrightarrow> heap_le h h'"
  by (auto simp: alloc_list_def heap_le_def)

lemma heap_le_alloc_array: "alloc_array h a = (h', r) \<Longrightarrow> heap_le h h'"
  by (auto simp: alloc_array_def heap_le_def)

lemma heap_le_lists: "heap_le h h' \<Longrightarrow> a < length (lists h) \<Longrightarrow> lists h' ! a = lists h ! a"
  by (auto simp: heap_le_def prefix_def nth_append)

lemma heap_le_arrays: "heap_le h h' \<Longrightarrow> a < length (arrays h) \<Longrightarrow> arrays h' ! a = arrays h ! a"
  by (auto simp: heap_le_def prefix_def nth_append)

lemma heap_le_length_lists: "heap_le h h' \<Longrightarrow> length (lists h) \<le> length (lists h')"
  by (auto simp: heap_le_def prefix_def)

lemma heap_le_length_arrays: "heap_le h h' \<Longrightarrow> length (arrays h) \<le> length (arrays h')"
  by (auto simp: heap_le_def prefix_def)

lemma selectByFeatureId_le: "selectByFeatureId h s c = (h', r) \<Longrightarrow> heap_le h h'"
  by (auto simp: selectByFeatureId_def alloc_list_def heap_le_def)

lemma selectByMaskValue_le: "selectByMaskValue self h s c = (h', r) \<Longrightarrow> heap_le h h'"
  by (auto simp: selectByMaskValue_def alloc_array_def heap_le_def Let_def split: if_splits)

lemma allocatingD: "allocating fs \<Longrightarrow> fs h s c = (h', r) \<Longrightarrow> heap_le h h'"
  unfolding allocating_def by blast

lemma rate_candidates_le:
  "allocating fs \<Longrightarrow> rate_candidates E self pat clf kw fs sel cands h = (h', r) \<Longrightarrow> heap_le h h'"
proof (induction cands arbitrary: h h' r)
  case Nil
  then show ?case by (simp add: heap_le_refl)
next
  case (Cons c cs)
  obtain h1 r1 where f: "fs h sel c = (h1, r1)" by (cases "fs h sel c")
  with Cons.prems have le1: "heap_le h h1" by (blast dest: allocatingD)
  show ?case
  proof (cases r1)
    case (Inl e)
    with f Cons.prems le1 show ?thesis by simp
  next
    case (Inr a)
    with f Cons.prems le1 show ?thesis
      by (auto split: sum.splits prod.splits dest!: Cons.IH [OF Cons.prems(1)] intro: heap_le_trans)
  qed
qed

lemma rate_candidates_argmax:
  assumes "cand \<noteq> []" "rate_candidates E self pat clf kw fs sel cand h = (h1, Inr rs)"
  shows "argmax rs < length cand" "cand ! argmax rs \<in> set cand"
    "length (remove1 (cand ! argmax rs) cand) < length cand"
proof -
  have len: "length rs = length cand" using assms(2) by (rule rate_candidates_length)
  with assms(1) have "rs \<noteq> []" by auto
  then have "argmax rs < length rs" by (rule argmax_less)
  with len show a: "argmax rs < length cand" by simp
  then show b: "cand ! argmax rs \<in> set cand" by simp
  then show "length (remove1 (cand ! argmax rs) cand) < length cand"
    using assms(1) by (simp add: length_remove1)
qed

lemma sel_loop_cases:
  obtains
    (empty) "cand = []"
      "sel_loop E self pat clf kw fs h cand sel best ids = (h, Inr (sel, ids))"
  | (rate_fail) h1 e where "cand \<noteq> []"
      "rate_candidates E self pat clf kw fs sel cand h = (h1, Inl e)"
      "sel_loop E self pat clf kw fs h cand sel best ids = (h1, Inl e)"
  | (stop) h1 rs where "cand \<noteq> []"
      "rate_candidates E self pat clf kw fs sel cand h = (h1, Inr rs)"
      "np_max rs - best < break_crit self"
      "sel_loop E self pat clf kw fs h cand sel best ids = (h1, Inr (sel, ids))"
  | (merge_fail) h1 rs h2 e where "cand \<noteq> []"
      "rate_candidates E self pat clf kw fs sel cand h = (h1, Inr rs)"
      "\<not> np_max rs - best < break_crit self"
      "fs h1 sel (cand ! argmax rs) = (h2, Inl e)"
      "sel_loop E self pat clf kw fs h cand sel best ids = (h2, Inl e)"
  | (step) h1 rs h2 sel' where "cand \<noteq> []"
      "rate_candidates E self pat clf kw fs sel cand h = (h1, Inr rs)"
      "\<not> np_max rs - best < break_crit self"
      "fs h1 sel (cand ! argmax rs) = (h2, Inr sel')"
      "sel_loop E self pat clf kw fs h cand sel best ids =
         sel_loop E self pat clf kw fs h2 (remove1 (cand ! argmax rs) cand) sel' (np_max rs)
           (ids @ [cand ! argmax rs])"
proof (cases "cand = []")
  case True
  then show ?thesis using empty by (simp add: sel_loop.simps)
next
  case ne: False
  obtain h1 r1 where rc: "rate_candidates E self pat clf kw fs sel cand h = (h1, r1)"
    by (cases "rate_candidates E self pat clf kw fs sel cand h")
  show ?thesis
  proof (cases r1)
    case (Inl e)
    with ne rc show ?thesis using rate_fail by (simp add: sel_loop.simps)
  next
    case (Inr rs)
    with rc ne have i: "argmax rs < length cand" by (simp add: rate_candidates_argmax)
    show ?thesis
    proof (cases "np_max rs - best < break_crit self")
      case True
      with ne rc Inr i show ?thesis using stop by (simp add: sel_loop.simps)
    next
      case nb: False
      obtain h2 r2 where f: "fs h1 sel (cand ! argmax rs) = (h2, r2)"
        by (cases "fs h1 sel (cand ! argmax rs)")
      show ?thesis
      proof (cases r2)
        case (Inl e)
        with ne rc \<open>r1 = Inr rs\<close> i nb f show ?thesis
          using merge_fail [of h1 rs h2 e]
          by (simp add: sel_loop.simps [of _ _ _ _ _ _ h cand] Let_def)
      next
        case (Inr sel')
        with ne rc \<open>r1 = Inr rs\<close> i nb f show ?thesis
          using step [of h1 rs h2 sel']
          by (simp add: sel_loop.simps [of _ _ _ _ _ _ h cand] Let_def)
      qed
    qed
  qed
qed

lemma sel_loop_le:
  "allocating fs \<Longrightarrow> sel_loop E self pat clf kw fs h cand sel best ids = (h', r) \<Longrightarrow> heap_le h h'"
proof (induction "length cand" arbitrary: h cand sel best ids rule: less_induct)
  case less
  note al = less.prems(1)
  show ?case
  proof (cases rule: sel_loop_cases [of cand E self pat clf kw fs h sel best ids])
    case empty
    with less.prems show ?thesis by (simp add: heap_le_refl)
  next
    case (rate_fail h1 e)
    with less.prems show ?thesis by (auto dest: rate_candidates_le [OF al])
  next
    case (stop h1 rs)
    with less.prems show ?thesis by (auto dest: rate_candidates_le [OF al])
  next
    case (merge_fail h1 rs h2 e)
    with less.prems show ?thesis
      by (auto dest!: rate_candidates_le [OF al] allocatingD [OF al] intro: heap_le_trans)
  next
    case (step h1 rs h2 sel')
    have "length (remove1 (cand ! argmax rs) cand) < length cand"
      using step(1,2) by (rule rate_candidates_argmax)
    from less.hyps [OF this al] step(5) less.prems(2) have "heap_le h2 h'" by simp
    moreover have "heap_le h h1" using step(2) by (rule rate_candidates_le [OF al])
    moreover have "heap_le h1 h2" using step(4) by (rule allocatingD [OF al])
    ultimately show ?thesis by (blast intro: heap_le_trans)
  qed
qed

subsection \<open>Candidate pools\<close>

lemma featureIds_map:
  "featureIds E pat coords = Inr ids \<Longrightarrow> map Inr ids = map (getFeatureId E pat) coords"
  by (induction coords arbitrary: ids) (auto split: sum.splits)

lemma featureIds_length:
  "featureIds E pat coords = Inr ids \<Longrightarrow> length ids = length coords"
  by (induction coords arbitrary: ids) (auto split: sum.splits)

lemma length_nonzero_coords:
  "length (nonzero_coords a) = length (filter (\<lambda>x. x \<noteq> 0) (elems a))"
proof -
  have "length (filter (\<lambda>k. elems a ! k \<noteq> 0) [0..<length (elems a)])
          = card {k. k < length (elems a) \<and> elems a ! k \<noteq> 0}"
    by (subst distinct_card [symmetric]) (auto intro: arg_cong [where f = card])
  then show ?thesis
    by (simp add: nonzero_coords_def length_filter_conv_card)
qed

subsection \<open>What the inner loop chooses\<close>

lemma allocating_selectByFeatureId: "allocating selectByFeatureId"
  unfolding allocating_def by (blast intro: selectByFeatureId_le)

lemma allocating_selectByMaskValue: "allocating (selectByMaskValue self)"
  unfolding allocating_def by (blast intro: selectByMaskValue_le)

lemma doSelection_le:
  "allocating fs \<Longrightarrow> doSelection E self h pat clf kw fs sel cands = (h', r) \<Longrightarrow> heap_le h h'"
  by (auto simp: doSelection_def dest: sel_loop_le)

lemma sel_loop_chosen:
  "sel_loop E self pat clf kw fs h cand sel best ids = (h', Inr (sel', ids')) \<Longrightarrow>
     \<exists>new. ids' = ids @ new \<and> length new \<le> length cand \<and> set new \<subseteq> set cand
        \<and> (distinct cand \<longrightarrow> distinct new)"
proof (induction "length cand" arbitrary: h cand sel best ids rule: less_induct)
  case less
  show ?case
  proof (cases rule: sel_loop_cases [of cand E self pat clf kw fs h sel best ids])
    case empty
    with less.prems show ?thesis by simp
  next
    case (rate_fail h1 e)
    with less.prems show ?thesis by simp
  next
    case (stop h1 rs)
    with less.prems show ?thesis by simp
  next
    case (merge_fail h1 rs h2 e)
    with less.prems show ?thesis by simp
  next
    case (step h1 rs h2 sel2)
    let ?b = "cand ! argmax rs"
    have b: "?b \<in> set cand" and lt: "length (remove1 ?b cand) < length cand"
      using step(1,2) by (rule rate_candidates_argmax)+
    have eq: "sel_loop E self pat clf kw fs h2 (remove1 ?b cand) sel2 (np_max rs) (ids @ [?b])
        = (h', Inr (sel', ids'))"
      using step(5) less.prems by simp
    from less.hyps [OF lt eq]
    obtain new where n: "ids' = (ids @ [?b]) @ new" "length new \<le> length (remove1 ?b cand)"
      "set new \<subseteq> set (remove1 ?b cand)" "distinct (remove1 ?b cand) \<longrightarrow> distinct new"
      by auto
    have "ids' = ids @ (?b # new)" using n(1) by simp
    moreover have "length (?b # new) \<le> length cand" using n(2) lt by simp
    moreover have "set (?b # new) \<subseteq> set cand"
      using n(3) b set_remove1_subset [of ?b cand] by auto
    moreover have "distinct cand \<longrightarrow> distinct (?b # new)"
      using n(3,4) by auto
    ultimately show ?thesis by blast
  qed
qed

subsection \<open>The loop over the meta folds\<close>

lemma rate_candidates_perfs:
  "rate_candidates E (self\<lparr>perfs := x\<rparr>) pat clf kw fs sel cands h
     = rate_candidates E self pat clf kw fs sel cands h"
  by (induction cands arbitrary: h) (auto simp: doCrossValidation_def split: sum.splits prod.splits)

lemma sel_loop_perfs:
  "sel_loop E (self\<lparr>perfs := x\<rparr>) pat clf kw fs h cand sel best ids
     = sel_loop E self pat clf kw fs h cand sel best ids"
proof (induction "length cand" arbitrary: h cand sel best ids rule: less_induct)
  case less
  show ?case
  proof (cases rule: sel_loop_cases [of cand E self pat clf kw fs h sel best ids])
    case empty
    then show ?thesis by (simp add: sel_loop.simps [of _ "self\<lparr>perfs := x\<rparr>"])
  next
    case (rate_fail h1 e)
    then show ?thesis
      by (simp add: sel_loop.simps [of _ "self\<lparr>perfs := x\<rparr>"] rate_candidates_perfs)
  next
    case (stop h1 rs)
    moreover have "argmax rs < length cand" using stop(1,2) by (rule rate_candidates_argmax)
    ultimately show ?thesis
      by (simp add: sel_loop.simps [of _ "self\<lparr>perfs := x\<rparr>"] rate_candidates_perfs Let_def)
  next
    case (merge_fail h1 rs h2 e)
    moreover have "argmax rs < length cand" using merge_fail(1,2) by (rule rate_candidates_argmax)
    ultimately show ?thesis
      by (simp add: sel_loop.simps [of _ "self\<lparr>perfs := x\<rparr>"] rate_candidates_perfs Let_def)
  next
    case (step h1 rs h2 sel2)
    have i: "argmax rs < length cand"
      and lt: "length (remove1 (cand ! argmax rs) cand) < length cand"
      using step(1,2) by (rule rate_candidates_argmax)+
    have "sel_loop E (self\<lparr>perfs := x\<rparr>) pat clf kw fs h cand sel best ids
        = sel_loop E (self\<lparr>perfs := x\<rparr>) pat clf kw fs h2 (remove1 (cand ! argmax rs) cand)
            sel2 (np_max rs) (ids @ [cand ! argmax rs])"
      using step(1-4) i
      by (simp add: sel_loop.simps [of _ "self\<lparr>perfs := x\<rparr>" _ _ _ _ h cand]
            rate_candidates_perfs Let_def)
    also have "\<dots> = sel_loop E self pat clf kw fs h2 (remove1 (cand ! argmax rs) cand)
            sel2 (np_max rs) (ids @ [cand ! argmax rs])"
      by (rule less.hyps [OF lt])
    finally show ?thesis using step(5) by simp
  qed
qed

lemma doSelection_perfs:
  "doSelection E (self\<lparr>perfs := x\<rparr>) h pat clf kw fs sel cands
     = doSelection E self h pat clf kw fs sel cands"
  by (simp add: doSelection_def sel_loop_perfs)

lemma fold_runs_perfs:
  "fold_runs E (self\<lparr>perfs := x\<rparr>) h clf kw fs sel cands excl
     = fold_runs E self h clf kw fs sel cands excl"
  by (induction excl arbitrary: h) (auto simp: doSelection_perfs split: sum.splits prod.splits)

lemma cv_folds_runs:
  "cv_folds E self h clf kw fs sel cands excl cvf cvr = (self', h', Inr (F, R)) \<Longrightarrow>
     length (fold_runs E self h clf kw fs sel cands excl) = length excl
     \<and> F = cvf @ map (\<lambda>run. fst (snd (snd run))) (fold_runs E self h clf kw fs sel cands excl)
     \<and> R = cvr @ map (\<lambda>run. snd (snd (snd run))) (fold_runs E self h clf kw fs sel cands excl)"
proof (induction excl arbitrary: self h cvf cvr)
  case Nil
  then show ?case by simp
next
  case (Cons ex rest)
  from Cons.prems obtain mt mtest where sp: "splitTrainTestData E (pattern self) ex = Inr (mt, mtest)"
    by (auto split: sum.splits)
  from Cons.prems sp obtain h1 sf rois where
    ds: "doSelection E self h mt clf kw fs sel cands = (h1, Inr (sf, rois))"
    by (auto split: sum.splits prod.splits)
  from Cons.prems sp ds obtain acc where
    rec: "cv_folds E (self\<lparr>perfs := perfs self @ [acc]\<rparr>) h1 clf kw fs sel cands rest
            (cvf @ [sf]) (cvr @ [rois]) = (self', h', Inr (F, R))"
    by (auto split: sum.splits)
  from Cons.IH [OF rec] sp ds show ?case
    by (simp add: fold_runs_perfs)
qed

lemma raisedI:
  "getFeatureId E p c = Inl e \<Longrightarrow> e \<in> raised E"
  "pat_selectFeatures E p h a = Inl e \<Longrightarrow> e \<in> raised E"
  "features2origmask E p ids = Inl e \<Longrightarrow> e \<in> raised E"
  "getUniqueLengthNCombinations E labels n = Inl e \<Longrightarrow> e \<in> raised E"
  "splitTrainTestData E p exclude = Inl e \<Longrightarrow> e \<in> raised E"
  "cv_run E p cvkw clf cvt kw = Inl e \<Longrightarrow> e \<in> raised E"
  "getClassification E clf train test kw = Inl e \<Longrightarrow> e \<in> raised E"
  unfolding raised_def by blast+

lemma cv_folds_cases:
  obtains
    (split_fail) e where "e \<in> raised E"
      "cv_folds E self h clf kw fs sel cands (ex # rest) cvf cvr = (self, h, Inl (Collaborator e))"
  | (search_fail) mt mtest h1 f where
      "splitTrainTestData E (pattern self) ex = Inr (mt, mtest)"
      "doSelection E self h mt clf kw fs sel cands = (h1, Inl f)"
      "cv_folds E self h clf kw fs sel cands (ex # rest) cvf cvr = (self, h1, Inl f)"
  | (eval_fail) mt mtest h1 sf rois e where
      "splitTrainTestData E (pattern self) ex = Inr (mt, mtest)"
      "doSelection E self h mt clf kw fs sel cands = (h1, Inr (sf, rois))"
      "e \<in> raised E"
      "cv_folds E self h clf kw fs sel cands (ex # rest) cvf cvr = (self, h1, Inl (Collaborator e))"
  | (next_fold) mt mtest h1 sf rois acc where
      "splitTrainTestData E (pattern self) ex = Inr (mt, mtest)"
      "doSelection E self h mt clf kw fs sel cands = (h1, Inr (sf, rois))"
      "cv_folds E self h clf kw fs sel cands (ex # rest) cvf cvr
         = cv_folds E (self\<lparr>perfs := perfs self @ [acc]\<rparr>) h1 clf kw fs sel cands rest
             (cvf @ [sf]) (cvr @ [rois])"
proof (cases "splitTrainTestData E (pattern self) ex")
  case (Inl e)
  then show ?thesis using split_fail [of e] by (simp add: raisedI)
next
  case (Inr tt)
  obtain mt mtest where tt: "tt = (mt, mtest)" by (cases tt)
  obtain h1 r1 where ds: "doSelection E self h mt clf kw fs sel cands = (h1, r1)"
    by (cases "doSelection E self h mt clf kw fs sel cands")
  show ?thesis
  proof (cases r1)
    case (Inl f)
    with Inr tt ds show ?thesis using search_fail [of mt mtest h1 f] by simp
  next
    case r1: (Inr res)
    obtain sf rois where res: "res = (sf, rois)" by (cases res)
    show ?thesis
    proof (cases "pat_selectFeatures E (pattern self) h1 sf")
      case (Inl e)
      with Inr tt ds r1 res show ?thesis
        using eval_fail [of mt mtest h1 sf rois e] by (simp add: raisedI)
    next
      case bp: (Inr bestfeature_pat)
      show ?thesis
      proof (cases "pat_selectFeatures E mtest h1 sf")
        case (Inl e)
        with Inr tt ds r1 res bp show ?thesis
          using eval_fail [of mt mtest h1 sf rois e] by (simp add: raisedI)
      next
        case tp: (Inr test_pat)
        show ?thesis
        proof (cases "getClassification E clf bestfeature_pat test_pat kw")
          case (Inl e)
          with Inr tt ds r1 res bp tp show ?thesis
            using eval_fail [of mt mtest h1 sf rois e] by (simp add: raisedI)
        next
          case (Inr predictions)
          with \<open>splitTrainTestData E (pattern self) ex = Inr tt\<close> tt ds r1 res bp tp show ?thesis
            using next_fold [of mt mtest h1 sf rois "fold_accuracy predictions (reg E mtest)"]
            by simp
        qed
      qed
    qed
  qed
qed

lemma cv_folds_state:
  "cv_folds E self h clf kw fs sel cands excl cvf cvr = (self', h', r) \<Longrightarrow>
     selection_masks self' = selection_masks self \<and> metacv_origins self' = metacv_origins self
     \<and> pattern self' = pattern self \<and> maskref self' = maskref self
     \<and> (\<exists>accs. perfs self' = perfs self @ accs \<and> length accs \<le> length excl
           \<and> (isl r \<longrightarrow> length accs < length excl)
           \<and> (\<not> isl r \<longrightarrow> length accs = length excl))"
proof (induction excl arbitrary: self h cvf cvr)
  case Nil
  then show ?case by auto
next
  case (Cons ex rest)
  show ?case
  proof (cases rule: cv_folds_cases [of E self h clf kw fs sel cands ex rest cvf cvr])
    case (split_fail e)
    with Cons.prems show ?thesis by auto
  next
    case (search_fail mt mtest h1 f)
    with Cons.prems show ?thesis by auto
  next
    case (eval_fail mt mtest h1 sf rois e)
    with Cons.prems show ?thesis by auto
  next
    case (next_fold mt mtest h1 sf rois acc)
    with Cons.prems have
      rec: "cv_folds E (self\<lparr>perfs := perfs self @ [acc]\<rparr>) h1 clf kw fs sel cands rest
              (cvf @ [sf]) (cvr @ [rois]) = (self', h', r)"
      by simp
    from Cons.IH [OF rec] obtain accs where
      a: "perfs self' = (perfs self @ [acc]) @ accs" "length accs \<le> length rest"
         "isl r \<longrightarrow> length accs < length rest" "\<not> isl r \<longrightarrow> length accs = length rest"
      and b: "selection_masks self' = selection_masks self" "metacv_origins self' = metacv_origins self"
         "pattern self' = pattern self" "maskref self' = maskref self"
      by auto
    have "perfs self' = perfs self @ (acc # accs)" using a(1) by simp
    moreover have "length (acc # accs) \<le> length (ex # rest)" using a(2) by simp
    moreover have "isl r \<longrightarrow> length (acc # accs) < length (ex # rest)" using a(3) by simp
    moreover have "\<not> isl r \<longrightarrow> length (acc # accs) = length (ex # rest)" using a(4) by simp
    ultimately show ?thesis using b by blast
  qed
qed

lemma cv_folds_le:
  "allocating fs \<Longrightarrow> cv_folds E self h clf kw fs sel cands excl cvf cvr = (self', h', r) \<Longrightarrow>
     heap_le h h'"
proof (induction excl arbitrary: self h cvf cvr)
  case Nil
  then show ?case by (simp add: heap_le_refl)
next
  case (Cons ex rest)
  note al = Cons.prems(1)
  show ?case
  proof (cases rule: cv_folds_cases [of E self h clf kw fs sel cands ex rest cvf cvr])
    case (split_fail e)
    with Cons.prems show ?thesis by (simp add: heap_le_refl)
  next
    case (search_fail mt mtest h1 f)
    with Cons.prems show ?thesis by (auto dest: doSelection_le [OF al])
  next
    case (eval_fail mt mtest h1 sf rois e)
    with Cons.prems show ?thesis by (auto dest: doSelection_le [OF al])
  next
    case (next_fold mt mtest h1 sf rois acc)
    with Cons.prems have
      rec: "cv_folds E (self\<lparr>perfs := perfs self @ [acc]\<rparr>) h1 clf kw fs sel cands rest
              (cvf @ [sf]) (cvr @ [rois]) = (self', h', r)"
      by simp
    have "heap_le h h1" using al next_fold(2) by (rule doSelection_le)
    with Cons.IH [OF al rec] show ?thesis by (blast intro: heap_le_trans)
  qed
qed

lemma fold_runs_le:
  "allocating fs \<Longrightarrow> run \<in> set (fold_runs E self h clf kw fs sel cands excl) \<Longrightarrow> heap_le h (fst run)"
proof (induction excl arbitrary: h)
  case Nil
  then show ?case by simp
next
  case (Cons ex rest)
  show ?case
  proof (cases "splitTrainTestData E (pattern self) ex")
    case (Inl e)
    with Cons.prems show ?thesis by simp
  next
    case (Inr tt)
    obtain mt mtest where tt: "tt = (mt, mtest)" by (cases tt)
    obtain h1 r1 where ds: "doSelection E self h mt clf kw fs sel cands = (h1, r1)"
      by (cases "doSelection E self h mt clf kw fs sel cands")
    have le1: "heap_le h h1" using Cons.prems(1) ds by (rule doSelection_le)
    show ?thesis
    proof (cases r1)
      case (Inl f)
      with Cons.prems Inr tt ds show ?thesis by simp
    next
      case r1: (Inr res)
      obtain sf rois where res: "res = (sf, rois)" by (cases res)
      from Cons.prems(2) Inr tt ds r1 res
      have "run = (h, mt, sf, rois) \<or> run \<in> set (fold_runs E self h1 clf kw fs sel cands rest)"
        by simp
      then show ?thesis
      proof
        assume "run = (h, mt, sf, rois)"
        then show ?thesis by (simp add: heap_le_refl)
      next
        assume "run \<in> set (fold_runs E self h1 clf kw fs sel cands rest)"
        from Cons.IH [OF Cons.prems(1) this] le1 show ?thesis by (blast intro: heap_le_trans)
      qed
    qed
  qed
qed

subsection \<open>Failures and the selected sets\<close>

lemma safe_allocating: "selector_safe fs ok \<Longrightarrow> allocating fs"
  by (simp add: selector_safe_def)

lemma safe_stable: "selector_safe fs ok \<Longrightarrow> ok h s \<Longrightarrow> heap_le h h' \<Longrightarrow> ok h' s"
  unfolding selector_safe_def by blast

lemma safe_select:
  "selector_safe fs ok \<Longrightarrow> ok h s \<Longrightarrow> fs h s c = (h', r) \<Longrightarrow> \<exists>s'. r = Inr s' \<and> ok h' s'"
  unfolding selector_safe_def by blast

lemma rate_candidates_ok:
  assumes safe: "selector_safe fs ok"
  shows "ok h s \<Longrightarrow> rate_candidates E self pat clf kw fs s cands h = (h', Inl f) \<Longrightarrow>
     \<exists>e\<in>raised E. f = Collaborator e"
proof (induction cands arbitrary: h)
  case Nil
  then show ?case by simp
next
  case (Cons c cs)
  obtain h1 r1 where f: "fs h s c = (h1, r1)" by (cases "fs h s c")
  note al = safe_allocating [OF safe]
  from safe_select [OF safe Cons.prems(1) f] obtain s1 where r1: "r1 = Inr s1" by blast
  have ok1: "ok h1 s" using safe Cons.prems(1) allocatingD [OF al f] by (rule safe_stable)
  show ?case
  proof (cases "pat_selectFeatures E pat h1 s1")
    case (Inl e)
    with Cons.prems(2) f r1 show ?thesis by (auto simp: raisedI)
  next
    case tp: (Inr temp_pat)
    show ?thesis
    proof (cases "doCrossValidation E self temp_pat clf kw")
      case (Inl e)
      then have "e \<in> raised E" by (simp add: doCrossValidation_def raisedI)
      with Cons.prems(2) f r1 tp Inl show ?thesis by auto
    next
      case (Inr perf)
      with Cons.prems(2) f r1 tp have
        "rate_candidates E self pat clf kw fs s cs h1 = (h', Inl f)"
        by (auto split: prod.splits sum.splits)
      with Cons.IH [OF ok1] show ?thesis by blast
    qed
  qed
qed

lemma sel_loop_ok:
  assumes safe: "selector_safe fs ok"
  shows "ok h s \<Longrightarrow> sel_loop E self pat clf kw fs h cand s best ids = (h', Inl f) \<Longrightarrow>
     \<exists>e\<in>raised E. f = Collaborator e"
proof (induction "length cand" arbitrary: h cand s best ids rule: less_induct)
  case less
  note al = safe_allocating [OF safe]
  show ?case
  proof (cases rule: sel_loop_cases [of cand E self pat clf kw fs h s best ids])
    case empty
    with less.prems show ?thesis by simp
  next
    case (rate_fail h1 e)
    with less.prems(2) have "rate_candidates E self pat clf kw fs s cand h = (h1, Inl f)" by simp
    then show ?thesis by (rule rate_candidates_ok [OF safe less.prems(1)])
  next
    case (stop h1 rs)
    with less.prems show ?thesis by simp
  next
    case (merge_fail h1 rs h2 e)
    have "ok h1 s"
      using safe less.prems(1) rate_candidates_le [OF al merge_fail(2)] by (rule safe_stable)
    from safe_select [OF safe this merge_fail(4)] show ?thesis by simp
  next
    case (step h1 rs h2 s2)
    have lt: "length (remove1 (cand ! argmax rs) cand) < length cand"
      using step(1,2) by (rule rate_candidates_argmax)
    have "ok h1 s"
      using safe less.prems(1) rate_candidates_le [OF al step(2)] by (rule safe_stable)
    from safe_select [OF safe this step(4)] have ok2: "ok h2 s2" by simp
    have "sel_loop E self pat clf kw fs h2 (remove1 (cand ! argmax rs) cand) s2 (np_max rs)
            (ids @ [cand ! argmax rs]) = (h', Inl f)"
      using step(5) less.prems(2) by simp
    from less.hyps [OF lt ok2 this] show ?thesis .
  qed
qed

lemma cv_folds_ok:
  assumes safe: "selector_safe fs ok"
  shows "ok h s \<Longrightarrow> cv_folds E self h clf kw fs s cands excl cvf cvr = (self', h', Inl f) \<Longrightarrow>
     \<exists>e\<in>raised E. f = Collaborator e"
proof (induction excl arbitrary: self h cvf cvr)
  case Nil
  then show ?case by simp
next
  case (Cons ex rest)
  note al = safe_allocating [OF safe]
  show ?case
  proof (cases rule: cv_folds_cases [of E self h clf kw fs s cands ex rest cvf cvr])
    case (split_fail e)
    with Cons.prems show ?thesis by auto
  next
    case (search_fail mt mtest h1 f1)
    with Cons.prems(2) have "sel_loop E self mt clf kw fs h (lists h ! cands) s 0 [] = (h1, Inl f)"
      by (simp add: doSelection_def)
    from sel_loop_ok [OF safe Cons.prems(1) this] show ?thesis by simp
  next
    case (eval_fail mt mtest h1 sf rois e)
    with Cons.prems show ?thesis by auto
  next
    case (next_fold mt mtest h1 sf rois acc)
    have "ok h1 s"
      using safe Cons.prems(1) doSelection_le [OF al next_fold(2)] by (rule safe_stable)
    moreover have "cv_folds E (self\<lparr>perfs := perfs self @ [acc]\<rparr>) h1 clf kw fs s cands rest
              (cvf @ [sf]) (cvr @ [rois]) = (self', h', Inl f)"
      using next_fold(3) Cons.prems(2) by simp
    ultimately show ?thesis by (rule Cons.IH)
  qed
qed

lemma mask_ok_stable: "mask_ok self h s \<Longrightarrow> heap_le h h' \<Longrightarrow> mask_ok self h' s"
  using heap_le_length_arrays [of h h'] heap_le_arrays [of h h']
  by (auto simp: mask_ok_def)

lemma mask_ok_select:
  "mask_ok self h s \<Longrightarrow> selectByMaskValue self h s c = (h', r) \<Longrightarrow> \<exists>s'. r = Inr s' \<and> mask_ok self h' s'"
  by (auto simp: mask_ok_def selectByMaskValue_def alloc_array_def Let_def nth_append)

lemma safe_selectByFeatureId: "selector_safe selectByFeatureId (\<lambda>h s. True)"
  by (auto simp: selector_safe_def allocating_selectByFeatureId selectByFeatureId_def alloc_list_def)

lemma safe_selectByMaskValue: "selector_safe (selectByMaskValue self) (mask_ok self)"
  unfolding selector_safe_def
  using allocating_selectByMaskValue mask_ok_stable mask_ok_select by blast

lemma featureIds_raised: "featureIds E pat coords = Inl f \<Longrightarrow> \<exists>e\<in>raised E. f = Collaborator e"
  by (induction coords) (auto split: sum.splits simp: raisedI)

lemma origmasks_raised:
  "origmasks E pat h refs = (h', Inl f) \<Longrightarrow> \<exists>e\<in>raised E. f = Collaborator e"
  by (induction refs arbitrary: h) (auto split: sum.splits prod.splits simp: raisedI)

lemma origmasks_le: "origmasks E pat h refs = (h', r) \<Longrightarrow> heap_le h h' \<and> lists h' = lists h"
proof (induction refs arbitrary: h h' r)
  case Nil
  then show ?case by (simp add: heap_le_refl)
next
  case (Cons f rest)
  show ?case
  proof (cases "features2origmask E pat (lists h ! f)")
    case (Inl e)
    with Cons.prems show ?thesis by (simp add: heap_le_refl)
  next
    case (Inr a)
    obtain h1 r1 where al: "alloc_array h a = (h1, r1)" by (cases "alloc_array h a")
    obtain h2 r2 where om: "origmasks E pat h1 rest = (h2, r2)" by (cases "origmasks E pat h1 rest")
    from Cons.prems Inr al om have "h' = h2" by (auto split: sum.splits)
    moreover from al have "heap_le h h1" "lists h1 = lists h"
      by (auto simp: alloc_array_def heap_le_def)
    moreover note Cons.IH [OF om]
    ultimately show ?thesis by (auto intro: heap_le_trans)
  qed
qed

lemma sel_loop_feature:
  "sel < length (lists h) \<Longrightarrow>
   sel_loop E self pat clf kw selectByFeatureId h cand sel best ids = (h', Inr (sel', ids')) \<Longrightarrow>
     sel' < length (lists h') \<and> (\<exists>new. ids' = ids @ new \<and> lists h' ! sel' = lists h ! sel @ new)"
proof (induction "length cand" arbitrary: h cand sel best ids rule: less_induct)
  case less
  note al = allocating_selectByFeatureId
  show ?case
  proof (cases rule: sel_loop_cases [of cand E self pat clf kw selectByFeatureId h sel best ids])
    case empty
    with less.prems show ?thesis by simp
  next
    case (rate_fail h1 e)
    with less.prems show ?thesis by simp
  next
    case (stop h1 rs)
    have le: "heap_le h h1" using stop(2) by (rule rate_candidates_le [OF al])
    with stop(4) less.prems show ?thesis
      using heap_le_lists [OF le less.prems(1)] heap_le_length_lists [OF le] by auto
  next
    case (merge_fail h1 rs h2 e)
    with less.prems show ?thesis by simp
  next
    case (step h1 rs h2 sel2)
    let ?b = "cand ! argmax rs"
    have lt: "length (remove1 ?b cand) < length cand"
      using step(1,2) by (rule rate_candidates_argmax)
    have le: "heap_le h h1" using step(2) by (rule rate_candidates_le [OF al])
    have s1: "lists h1 ! sel = lists h ! sel" using le less.prems(1) by (rule heap_le_lists)
    from step(4) have s2: "sel2 < length (lists h2)" "lists h2 ! sel2 = lists h1 ! sel @ [?b]"
      by (auto simp: selectByFeatureId_def alloc_list_def)
    have eq: "sel_loop E self pat clf kw selectByFeatureId h2 (remove1 ?b cand) sel2 (np_max rs)
                (ids @ [?b]) = (h', Inr (sel', ids'))"
      using step(5) less.prems(2) by simp
    from less.hyps [OF lt s2(1) eq] obtain new where
      "sel' < length (lists h')" "ids' = (ids @ [?b]) @ new" "lists h' ! sel' = lists h2 ! sel2 @ new"
      by blast
    then have "sel' < length (lists h')" "ids' = ids @ (?b # new)"
      "lists h' ! sel' = lists h ! sel @ (?b # new)"
      using s1 s2(2) by simp_all
    then show ?thesis by blast
  qed
qed

lemma cv_folds_feature:
  "selected < length (lists h) \<Longrightarrow> lists h ! selected = [] \<Longrightarrow>
   cv_folds E self h clf kw selectByFeatureId selected cands excl cvf cvr = (self', h', Inr (F, R)) \<Longrightarrow>
     \<exists>Fn. F = cvf @ Fn \<and> R = cvr @ map (\<lambda>r. lists h' ! r) Fn
        \<and> (\<forall>r\<in>set Fn. r < length (lists h'))"
proof (induction excl arbitrary: self h cvf cvr)
  case Nil
  then show ?case by simp
next
  case (Cons ex rest)
  note al = allocating_selectByFeatureId
  show ?case
  proof (cases rule: cv_folds_cases [of E self h clf kw selectByFeatureId selected cands ex rest cvf cvr])
    case (split_fail e)
    with Cons.prems show ?thesis by simp
  next
    case (search_fail mt mtest h1 f)
    with Cons.prems show ?thesis by simp
  next
    case (eval_fail mt mtest h1 sf rois e)
    with Cons.prems show ?thesis by simp
  next
    case (next_fold mt mtest h1 sf rois acc)
    have le1: "heap_le h h1" using al next_fold(2) by (rule doSelection_le)
    have "sel_loop E self mt clf kw selectByFeatureId h (lists h ! cands) selected 0 []
            = (h1, Inr (sf, rois))"
      using next_fold(2) by (simp add: doSelection_def)
    from sel_loop_feature [OF Cons.prems(1) this] Cons.prems(2)
    have sf: "sf < length (lists h1)" "lists h1 ! sf = rois" by simp_all
    have v1: "selected < length (lists h1)"
      using Cons.prems(1) heap_le_length_lists [OF le1] by simp
    have v2: "lists h1 ! selected = []"
      using heap_le_lists [OF le1 Cons.prems(1)] Cons.prems(2) by simp
    have rec: "cv_folds E (self\<lparr>perfs := perfs self @ [acc]\<rparr>) h1 clf kw selectByFeatureId
                 selected cands rest (cvf @ [sf]) (cvr @ [rois]) = (self', h', Inr (F, R))"
      using next_fold(3) Cons.prems(3) by simp
    from Cons.IH [OF v1 v2 rec] obtain Fn where
      n1: "F = (cvf @ [sf]) @ Fn" and n2: "R = (cvr @ [rois]) @ map (\<lambda>r. lists h' ! r) Fn"
      and n3: "\<forall>r\<in>set Fn. r < length (lists h')"
      by blast
    have le2: "heap_le h1 h'" using al rec by (rule cv_folds_le)
    have c: "lists h' ! sf = rois" using heap_le_lists [OF le2 sf(1)] sf(2) by simp
    have d: "sf < length (lists h')" using sf(1) heap_le_length_lists [OF le2] by simp
    have "F = cvf @ (sf # Fn)" using n1 by simp
    moreover have "R = cvr @ map (\<lambda>r. lists h' ! r) (sf # Fn)" using n2 c by simp
    moreover have "\<forall>r\<in>set (sf # Fn). r < length (lists h')" using n3 d by simp
    ultimately show ?thesis by (intro exI [of _ "sf # Fn"] conjI)
  qed
qed

subsection \<open>Pools without duplicates\<close>

lemma unravel_inj:
  "k < prod_list sh \<Longrightarrow> k' < prod_list sh \<Longrightarrow> unravel sh k = unravel sh k' \<Longrightarrow> k = k'"
proof (induction sh arbitrary: k k')
  case Nil
  then show ?case by simp
next
  case (Cons d ds)
  let ?P = "prod_list ds"
  from Cons.prems(1) have pos: "0 < ?P" by (cases "?P = 0") auto
  from Cons.prems(3) have dv: "k div ?P = k' div ?P"
    and un: "unravel ds (k mod ?P) = unravel ds (k' mod ?P)" by simp_all
  have "k mod ?P < ?P" "k' mod ?P < ?P" using pos by simp_all
  from Cons.IH [OF this un] have md: "k mod ?P = k' mod ?P" .
  have "k = ?P * (k div ?P) + k mod ?P" by simp
  also have "\<dots> = ?P * (k' div ?P) + k' mod ?P" using dv md by simp
  also have "\<dots> = k'" by simp
  finally show ?case .
qed

lemma distinct_nonzero_coords: "wellformed a \<Longrightarrow> distinct (nonzero_coords a)"
  unfolding nonzero_coords_def wellformed_def
  by (auto simp: distinct_map inj_on_def dest: unravel_inj)

lemma featureIds_distinct:
  assumes "featureIds E pat coords = Inr ids" "distinct coords"
    "inj_on (getFeatureId E pat) (set coords)"
  shows "distinct ids"
proof -
  have "distinct (map (getFeatureId E pat) coords)" using assms(2,3) by (simp add: distinct_map)
  then show ?thesis
    unfolding featureIds_map [OF assms(1), symmetric] by (simp add: distinct_map)
qed

lemma distinct_roi_candidates: "distinct (roi_candidates self h)"
  by (simp add: roi_candidates_def np_unique_def)

lemma distinct_feature_candidates:
  "wellformed (arrays h ! maskref self) \<Longrightarrow>
   inj_on (getFeatureId E (pattern self)) (set (nonzero_coords (arrays h ! maskref self))) \<Longrightarrow>
   feature_candidates E self h = Inr ids \<Longrightarrow> distinct ids"
  unfolding feature_candidates_def
  by (rule featureIds_distinct) (simp_all add: distinct_nonzero_coords)

section \<open>The claims\<close>

subsection \<open>Construction\<close>

text \<open>
  C7: for every mask and dataset whose shapes differ (the shape of the mask is not the
  original feature-space shape of the dataset), the constructor fails with a
  \<open>ValueError\<close>; no search object is returned, so no search can run on it.
\<close>

theorem init_shape_mismatch:
  "shape (arrays h ! m) \<noteq> origshape E pat \<Longrightarrow> init E h pat m cvt metacvt crit kwargs = Inl ValueError"
  by (simp add: init_def)

theorem init_shape_mismatch_witness:
  "shape (arrays \<lparr>lists = [], arrays = [IntArray [2] [1, 0]]\<rparr> ! 0)
      \<noteq> origshape (toy ids_view) [([10], 1, 1), ([20], 2, 2)]
   \<and> init (toy ids_view) \<lparr>lists = [], arrays = [IntArray [2] [1, 0]]\<rparr>
        [([10], 1, 1), ([20], 2, 2)] 0 1 1 (1 / 1000) () = Inl ValueError"
proof -
  have ne: "shape (arrays \<lparr>lists = [], arrays = [IntArray [2] [1, 0]]\<rparr> ! 0)
      \<noteq> origshape (toy ids_view) [([10], 1, 1), ([20], 2, 2)]"
    by (simp add: toy_def)
  from init_shape_mismatch [OF ne] ne show ?thesis by blast
qed

subsection \<open>Candidate pools of the two entry points\<close>

text \<open>
  C4: the candidate pool of \<open>selectFeatures\<close> holds the feature ids of the nonzero mask
  elements in scan order of their coordinates (when no lookup of a feature id fails), so
  it has as many entries as the mask has nonzero elements; the candidate pool of
  \<open>selectROIs\<close> is the sorted list of the distinct mask values (zero included when the
  mask has it), so it has as many entries as the mask has distinct values.
\<close>

theorem candidate_pools:
  assumes "feature_candidates E self h = Inr ids"
  shows "map Inr ids = map (getFeatureId E (pattern self)) (nonzero_coords (arrays h ! maskref self))
    \<and> length ids = length (filter (\<lambda>x. x \<noteq> 0) (elems (arrays h ! maskref self)))
    \<and> roi_candidates self h = sorted_list_of_set (set (elems (arrays h ! maskref self)))
    \<and> length (roi_candidates self h) = card (set (elems (arrays h ! maskref self)))"
proof -
  from assms have m: "map Inr ids
      = map (getFeatureId E (pattern self)) (nonzero_coords (arrays h ! maskref self))"
    by (simp add: feature_candidates_def featureIds_map)
  from assms have "length ids = length (nonzero_coords (arrays h ! maskref self))"
    by (simp add: feature_candidates_def featureIds_length)
  then have l: "length ids = length (filter (\<lambda>x. x \<noteq> 0) (elems (arrays h ! maskref self)))"
    by (simp add: length_nonzero_coords)
  have r: "roi_candidates self h = sorted_list_of_set (set (elems (arrays h ! maskref self)))"
    by (simp add: roi_candidates_def np_unique_def sorted_list_of_set_sort_remdups)
  have "length (roi_candidates self h) = card (set (elems (arrays h ! maskref self)))"
    by (simp add: roi_candidates_def np_unique_def length_remdups_card_conv)
  with m l r show ?thesis by blast
qed

theorem candidate_pools_witness:
  "feature_candidates (toy ids_view) (toy_searcher [([10, 20, 30], 1, 1)] 0)
       \<lparr>lists = [], arrays = [IntArray [3] [2, 0, 2]]\<rparr> = Inr [0, 2]
   \<and> length [0, 2 :: int] = length (filter (\<lambda>x. x \<noteq> 0) [2, 0, 2 :: int])
   \<and> roi_candidates (toy_searcher [([10, 20, 30], 1, 1)] 0)
       \<lparr>lists = [], arrays = [IntArray [3] [2, 0, 2]]\<rparr> = [0, 2]"
proof -
  have f: "feature_candidates (toy ids_view) (toy_searcher [([10, 20, 30], 1, 1)] 0)
       \<lparr>lists = [], arrays = [IntArray [3] [2, 0, 2]]\<rparr> = Inr [0, 2]"
    by code_simp
  have s: "sorted_list_of_set (set [2, 0, 2 :: int]) = [0, 2]"
    by code_simp
  from candidate_pools [OF f] f s show ?thesis
    by (simp add: toy_searcher_def)
qed

subsection \<open>The mean selection mask\<close>

text \<open>
  C9: the mean selection mask is \<open>None\<close> exactly when the list of selection masks is
  empty (no fold has completed), and so it is on an object whose results were just
  cleared: an explicit no-result value, neither an array of zeros nor a failure.
\<close>

theorem mean_mask_none:
  "(getMeanSelectionMask self h = None \<longleftrightarrow> selection_masks self = [])
   \<and> getMeanSelectionMask (clearResults self) h = None"
  by (auto simp: getMeanSelectionMask_def clearResults_def Let_def)

subsection \<open>One round of the greedy loop\<close>

text \<open>
  C3: in a round with a non-empty pool, where \<open>rating\<close> holds the mean cross-validated
  rating of every candidate in pool order, the winner is the candidate at \<open>argmax rating\<close>:
  its rating is the maximum, and every candidate before it is rated strictly lower (the
  first occurrence wins a tie).  If that rating minus \<open>best_performance_ever\<close> is below
  the break criterion, the loop returns the selected set and the chosen ids as they are;
  otherwise the winner is merged into the selected set, appended to the chosen ids, removed
  from the local pool, and its rating becomes \<open>best_performance_ever\<close>.  The search starts
  with \<open>best_performance_ever = 0\<close> and no chosen id.
\<close>

theorem greedy_round:
  assumes "feat_cand \<noteq> []"
    and "rate_candidates E self pat clf kw fs selected feat_cand h = (h1, Inr rating)"
  shows "argmax rating < length feat_cand
    \<and> (\<forall>j<length rating. rating ! j \<le> rating ! argmax rating)
    \<and> (\<forall>j<argmax rating. rating ! j < rating ! argmax rating)
    \<and> np_max rating = rating ! argmax rating
    \<and> (np_max rating - best < break_crit self \<longrightarrow>
          sel_loop E self pat clf kw fs h feat_cand selected best best_ids
            = (h1, Inr (selected, best_ids)))
    \<and> (\<not> np_max rating - best < break_crit self \<longrightarrow>
          (\<forall>h2 selected'. fs h1 selected (feat_cand ! argmax rating) = (h2, Inr selected') \<longrightarrow>
             sel_loop E self pat clf kw fs h feat_cand selected best best_ids
               = sel_loop E self pat clf kw fs h2 (remove1 (feat_cand ! argmax rating) feat_cand)
                   selected' (np_max rating) (best_ids @ [feat_cand ! argmax rating])))
    \<and> doSelection E self h pat clf kw fs selected candidates
         = sel_loop E self pat clf kw fs h (lists h ! candidates) selected 0 []"
proof -
  have i: "argmax rating < length feat_cand" using assms by (rule rate_candidates_argmax)
  have len: "length rating = length feat_cand" using assms(2) by (rule rate_candidates_length)
  with assms(1) have ne: "rating \<noteq> []" by auto
  have stop: "np_max rating - best < break_crit self \<Longrightarrow>
      sel_loop E self pat clf kw fs h feat_cand selected best best_ids = (h1, Inr (selected, best_ids))"
    using assms i by (simp add: sel_loop.simps [of _ _ _ _ _ _ h feat_cand] Let_def)
  have step: "\<not> np_max rating - best < break_crit self \<Longrightarrow>
      fs h1 selected (feat_cand ! argmax rating) = (h2, Inr selected') \<Longrightarrow>
      sel_loop E self pat clf kw fs h feat_cand selected best best_ids
        = sel_loop E self pat clf kw fs h2 (remove1 (feat_cand ! argmax rating) feat_cand)
            selected' (np_max rating) (best_ids @ [feat_cand ! argmax rating])" for h2 selected'
    using assms i by (simp add: sel_loop.simps [of _ _ _ _ _ _ h feat_cand] Let_def)
  have start: "doSelection E self h pat clf kw fs selected candidates
         = sel_loop E self pat clf kw fs h (lists h ! candidates) selected 0 []"
    by (simp add: doSelection_def)
  show ?thesis
    using i argmax_ge [of _ rating] argmax_first [of _ rating] argmax_max [OF ne] stop step start
    by (intro conjI allI impI) simp_all
qed

theorem greedy_round_witness:
  "rate_candidates (toy_rated ids_view) (toy_searcher [([0, 30, 30], 1, 1)] 0) [([0, 30, 30], 1, 1)]
       () () selectByFeatureId 0 [0, 1, 2] \<lparr>lists = [[], [0, 1, 2]], arrays = []\<rparr>
     = (\<lparr>lists = [[], [0, 1, 2], [0], [1], [2]], arrays = []\<rparr>, Inr [0, 3 / 10, 3 / 10])
   \<and> argmax [0, 3 / 10, 3 / 10] = 1
   \<and> sel_loop (toy_rated ids_view) (toy_searcher [([0, 30, 30], 1, 1)] 0) [([0, 30, 30], 1, 1)]
       () () selectByFeatureId \<lparr>lists = [[], [0, 1, 2]], arrays = []\<rparr> [0, 1, 2] 0 0 []
     = sel_loop (toy_rated ids_view) (toy_searcher [([0, 30, 30], 1, 1)] 0) [([0, 30, 30], 1, 1)]
       () () selectByFeatureId \<lparr>lists = [[], [0, 1, 2], [0], [1], [2], [1]], arrays = []\<rparr>
       [0, 2] 5 (3 / 10) [1]
   \<and> sel_loop (toy_rated ids_view) (toy_searcher [([0, 30, 30], 1, 1)] 0) [([0, 30, 30], 1, 1)]
       () () selectByFeatureId
       \<lparr>lists = [[], [0, 1, 2], [0], [1], [2], [1], [1, 0], [1, 2], [1, 2]], arrays = []\<rparr>
       [0] 8 (3 / 5) [1, 2]
     = (\<lparr>lists = [[], [0, 1, 2], [0], [1], [2], [1], [1, 0], [1, 2], [1, 2], [1, 2, 0]],
         arrays = []\<rparr>, Inr (8, [1, 2]))
   \<and> doSelection (toy_rated ids_view) (toy_searcher [([0, 30, 30], 1, 1)] 0)
       \<lparr>lists = [[], [0, 1, 2]], arrays = []\<rparr> [([0, 30, 30], 1, 1)] () () selectByFeatureId 0 1
     = (\<lparr>lists = [[], [0, 1, 2], [0], [1], [2], [1], [1, 0], [1, 2], [1, 2], [1, 2, 0]],
         arrays = []\<rparr>, Inr (8, [1, 2]))"
proof -
  let ?E = "toy_rated ids_view"
  let ?P = "[([0, 30, 30], 1, 1)] :: toy_pattern"
  let ?S = "toy_searcher ?P 0"
  let ?H = "\<lparr>lists = [[], [0, 1, 2]], arrays = []\<rparr>"
  let ?H1 = "\<lparr>lists = [[], [0, 1, 2], [0], [1], [2]], arrays = []\<rparr>"
  let ?H2 = "\<lparr>lists = [[], [0, 1, 2], [0], [1], [2], [1]], arrays = []\<rparr>"
  let ?H8 = "\<lparr>lists = [[], [0, 1, 2], [0], [1], [2], [1], [1, 0], [1, 2], [1, 2]], arrays = []\<rparr>"
  let ?H9 = "\<lparr>lists = [[], [0, 1, 2], [0], [1], [2], [1], [1, 0], [1, 2], [1, 2], [1, 2, 0]],
               arrays = []\<rparr>"
  have ne1: "[0, 1, 2 :: int] \<noteq> []" and ne3: "[0 :: int] \<noteq> []" by simp_all
  have rc1: "rate_candidates ?E ?S ?P () () selectByFeatureId 0 [0, 1, 2] ?H
      = (?H1, Inr [0, 3 / 10, 3 / 10])"
    by code_simp
  have rc3: "rate_candidates ?E ?S ?P () () selectByFeatureId 8 [0] ?H8 = (?H9, Inr [3 / 5])"
    by code_simp
  have am: "argmax [0, 3 / 10, 3 / 10] = 1" by code_simp
  have go: "\<not> np_max [0, 3 / 10, 3 / 10] - 0 < break_crit ?S" by code_simp
  have stop: "np_max [3 / 5] - 3 / 5 < break_crit ?S" by code_simp
  have mx: "np_max [0, 3 / 10, 3 / 10] = 3 / 10" by code_simp
  have merge: "selectByFeatureId ?H1 0 ([0, 1, 2] ! 1) = (?H2, Inr 5 :: string failure + addr)"
    by code_simp
  have run: "doSelection ?E ?S ?H ?P () () selectByFeatureId 0 1 = (?H9, Inr (8, [1, 2]))"
    by code_simp
  have r1: "sel_loop ?E ?S ?P () () selectByFeatureId ?H [0, 1, 2] 0 0 []
      = sel_loop ?E ?S ?P () () selectByFeatureId ?H2 [0, 2] 5 (3 / 10) [1]"
    using greedy_round [OF ne1 rc1, of 0 "[]"] go merge by (simp add: am mx)
  have r3: "sel_loop ?E ?S ?P () () selectByFeatureId ?H8 [0] 8 (3 / 5) [1, 2]
      = (?H9, Inr (8, [1, 2]))"
    using greedy_round [OF ne3 rc3, of "3 / 5" "[1, 2]"] stop by blast
  from rc1 am r1 r3 run show ?thesis by blast
qed

subsection \<open>The chosen ids\<close>

text \<open>
  C8: in every run of the inner loop the number of chosen ids is at most the size of the
  initial pool and every chosen id comes from the pool; the chosen ids are free of
  duplicates, given that the pool is.  The pools that the loop receives are free of
  duplicates: the pool of \<open>selectROIs\<close> always (the distinct mask values), the pool of
  \<open>selectFeatures\<close> for a dataset whose feature ids tell the coordinates of the nonzero mask
  elements apart.
\<close>

theorem chosen_ids_bounded:
  assumes "doSelection E self h pat clf kw fs selected candidates = (h', Inr (selected', best_ids))"
  shows "length best_ids \<le> length (lists h ! candidates)
    \<and> set best_ids \<subseteq> set (lists h ! candidates)
    \<and> (distinct (lists h ! candidates) \<longrightarrow> distinct best_ids)
    \<and> distinct (roi_candidates self h0)
    \<and> (wellformed (arrays h0 ! maskref self)
         \<and> inj_on (getFeatureId E (pattern self)) (set (nonzero_coords (arrays h0 ! maskref self)))
         \<and> feature_candidates E self h0 = Inr ids
       \<longrightarrow> distinct ids)"
proof -
  from assms sel_loop_chosen [of E self pat clf kw fs h "lists h ! candidates" selected 0 "[]" h' selected' best_ids]
  have "length best_ids \<le> length (lists h ! candidates)
    \<and> set best_ids \<subseteq> set (lists h ! candidates)
    \<and> (distinct (lists h ! candidates) \<longrightarrow> distinct best_ids)"
    by (auto simp: doSelection_def)
  then show ?thesis
    using distinct_roi_candidates [of self h0] distinct_feature_candidates [of h0 self E ids]
    by blast
qed

theorem chosen_ids_bounded_witness:
  "feature_candidates (toy_rated ids_view) (toy_searcher [([0, 30, 30], 1, 1)] 0)
       \<lparr>lists = [], arrays = [IntArray [3] [1, 1, 1]]\<rparr> = Inr [0, 1, 2]
   \<and> doSelection (toy_rated ids_view) (toy_searcher [([0, 30, 30], 1, 1)] 0)
       \<lparr>lists = [[], [0, 1, 2]], arrays = [IntArray [3] [1, 1, 1]]\<rparr> [([0, 30, 30], 1, 1)] () ()
       selectByFeatureId 0 1
     = (\<lparr>lists = [[], [0, 1, 2], [0], [1], [2], [1], [1, 0], [1, 2], [1, 2], [1, 2, 0]],
         arrays = [IntArray [3] [1, 1, 1]]\<rparr>, Inr (8, [1, 2]))
   \<and> distinct [0, 1, 2 :: int] \<and> distinct [1, 2 :: int]
   \<and> length [1, 2 :: int] \<le> length [0, 1, 2 :: int]"
proof -
  let ?P = "[([0, 30, 30], 1, 1)] :: toy_pattern"
  let ?h0 = "\<lparr>lists = [], arrays = [IntArray [3] [1, 1, 1]]\<rparr>"
  have fc: "feature_candidates (toy_rated ids_view) (toy_searcher ?P 0) ?h0 = Inr [0, 1, 2]"
    by code_simp
  have wf: "wellformed (arrays ?h0 ! maskref (toy_searcher ?P 0))"
    by (simp add: wellformed_def toy_searcher_def)
  have nz: "nonzero_coords (IntArray [3] [1, 1, 1]) = [[0], [1], [2]]"
    by code_simp
  have inj: "inj_on (getFeatureId (toy_rated ids_view) (pattern (toy_searcher ?P 0)))
      (set (nonzero_coords (arrays ?h0 ! maskref (toy_searcher ?P 0))))"
    by (simp add: toy_searcher_def nz toy_rated_def toy_def)
  have run: "doSelection (toy_rated ids_view) (toy_searcher ?P 0)
       \<lparr>lists = [[], [0, 1, 2]], arrays = [IntArray [3] [1, 1, 1]]\<rparr> ?P () () selectByFeatureId 0 1
     = (\<lparr>lists = [[], [0, 1, 2], [0], [1], [2], [1], [1, 0], [1, 2], [1, 2], [1, 2, 0]],
         arrays = [IntArray [3] [1, 1, 1]]\<rparr>, Inr (8, [1, 2]))"
    by code_simp
  from chosen_ids_bounded [OF run, of ?h0 "[0, 1, 2]"] wf inj fc run show ?thesis
    by simp
qed

subsection \<open>The caller's pool\<close>

text \<open>
  C6: a run of the inner loop, with either selector, changes no object of the store it
  started from; in particular the caller's pool holds the same candidates afterwards, and
  a second run on the same pool object starts from the same local pool (the same number
  of candidates) as the first.
\<close>

theorem pool_not_mutated:
  assumes "fs = selectByFeatureId \<or> fs = selectByMaskValue self"
    and "candidates < length (lists h)"
    and "doSelection E self h pat clf kw fs selected candidates = (h', r)"
  shows "lists h' ! candidates = lists h ! candidates
    \<and> heap_le h h'
    \<and> doSelection E self h' pat' clf kw fs selected' candidates
         = sel_loop E self pat' clf kw fs h' (lists h ! candidates) selected' 0 []"
proof -
  from assms(1) have "allocating fs"
    using allocating_selectByFeatureId allocating_selectByMaskValue by blast
  then have le: "heap_le h h'" using assms(3) by (rule doSelection_le)
  then have "lists h' ! candidates = lists h ! candidates" using assms(2) by (rule heap_le_lists)
  with le show ?thesis by (simp add: doSelection_def)
qed

theorem pool_not_mutated_witness:
  "doSelection (toy ids_view) (toy_searcher [([10, 20], 1, 1)] 0)
       \<lparr>lists = [[], [0, 1]], arrays = []\<rparr> [([10, 20], 1, 1)] () () selectByFeatureId 0 1
     = (\<lparr>lists = [[], [0, 1], [0], [1], [0], [0, 1], [0, 1]], arrays = []\<rparr>, Inr (6, [0, 1]))
   \<and> lists \<lparr>lists = [[], [0, 1], [0], [1], [0], [0, 1], [0, 1]], arrays = []\<rparr> ! 1 = [0, 1]"
proof -
  have fs: "(selectByFeatureId :: string selector) = selectByFeatureId
      \<or> (selectByFeatureId :: string selector) = selectByMaskValue (toy_searcher [([10, 20], 1, 1)] 0)"
    by simp
  have v: "1 < length (lists \<lparr>lists = [[], [0, 1]], arrays = []\<rparr>)" by simp
  have r: "doSelection (toy ids_view) (toy_searcher [([10, 20], 1, 1)] 0)
       \<lparr>lists = [[], [0, 1]], arrays = []\<rparr> [([10, 20], 1, 1)] () () selectByFeatureId 0 1
     = (\<lparr>lists = [[], [0, 1], [0], [1], [0], [0, 1], [0, 1]], arrays = []\<rparr>, Inr (6, [0, 1]))"
    by code_simp
  from pool_not_mutated [OF fs v r] r show ?thesis by simp
qed

end
